theory Spec2Isabelle
  imports Main "HOL-Library.Monad_Syntax"
begin

section \<open>The CSS selector builder of objects-tasks.js\<close>

text \<open>
  The class \<open>Selector\<close> and the facade \<open>cssSelectorBuilder\<close> of
  \<^verbatim>\<open>src/objects-tasks.js\<close>. A \<open>Selector\<close> is a mutable object: its methods
  assign to the fields of \<open>this\<close> and return \<open>this\<close>, and \<open>combine\<close> stores
  references to two other objects. The embedding therefore keeps an explicit heap, a
  list of objects in which a reference is an index and \<open>new\<close> appends. Every method
  takes the heap and returns the heap it leaves behind together with its outcome: the
  returned reference, or the error it throws.

  Selector values are JavaScript strings; the code only concatenates them and tests
  them for emptiness (a string is falsy exactly when it is empty), so they are modelled
  as character lists.
\<close>

subsection \<open>Objects, heap and errors\<close>

type_synonym ref = nat

text \<open>The fields that the constructor of \<open>Selector\<close> declares, in its order.\<close>

record Selector =
  elementValue :: string
  idValue :: string
  classValues :: "string list"
  attrValues :: "string list"
  pseudoClassValues :: "string list"
  pseudoElementValue :: string
  combinator :: string
  selectors :: "ref list"
  elementCount :: int
  idCount :: int
  pseudoElementCount :: int
  hasElement :: bool
  hasId :: bool
  hasPseudoElement :: bool

type_synonym heap = "Selector list"

text \<open>
  The two errors that the methods throw, told apart by their messages:
  \<open>DuplicateSelectorPart\<close> is ``Element, id and pseudo-element should not occur more
  then one time inside the selector'' and \<open>OutOfOrder\<close> is ``Selector parts should be
  arranged in the following order: element, id, class, attribute, pseudo-class,
  pseudo-element''.
\<close>

datatype error = DuplicateSelectorPart | OutOfOrder

type_synonym 'a outcome = "(error + 'a) \<times> heap"

text \<open>The state that \<open>constructor()\<close> gives a new object, and \<open>new Selector()\<close>.\<close>

definition Selector_constructor :: Selector where
  "Selector_constructor =
     \<lparr>elementValue = '''', idValue = '''', classValues = [], attrValues = [],
      pseudoClassValues = [], pseudoElementValue = '''', combinator = '''',
      selectors = [], elementCount = 0, idCount = 0, pseudoElementCount = 0,
      hasElement = False, hasId = False, hasPseudoElement = False\<rparr>"

definition new_Selector :: "heap \<Rightarrow> ref \<times> heap" where
  "new_Selector h = (length h, h @ [Selector_constructor])"

subsection \<open>The methods of Selector\<close>

definition Selector_element :: "heap \<Rightarrow> ref \<Rightarrow> string \<Rightarrow> ref outcome" where
  "Selector_element h this v =
     (if hasElement (h ! this) then (Inl DuplicateSelectorPart, h)
      else if hasId (h ! this) \<or> length (classValues (h ! this)) \<noteq> 0
              \<or> length (attrValues (h ! this)) \<noteq> 0
              \<or> length (pseudoClassValues (h ! this)) \<noteq> 0
              \<or> hasPseudoElement (h ! this)
      then (Inl OutOfOrder, h)
      else (Inr this, h[this := (h ! this)\<lparr>elementValue := v, hasElement := True\<rparr>]))"

definition Selector_id :: "heap \<Rightarrow> ref \<Rightarrow> string \<Rightarrow> ref outcome" where
  "Selector_id h this v =
     (if hasId (h ! this) then (Inl DuplicateSelectorPart, h)
      else if length (classValues (h ! this)) \<noteq> 0
              \<or> length (attrValues (h ! this)) \<noteq> 0
              \<or> length (pseudoClassValues (h ! this)) \<noteq> 0
              \<or> hasPseudoElement (h ! this)
      then (Inl OutOfOrder, h)
      else (Inr this, h[this := (h ! this)\<lparr>idValue := v, hasId := True\<rparr>]))"

definition Selector_class :: "heap \<Rightarrow> ref \<Rightarrow> string \<Rightarrow> ref outcome" where
  "Selector_class h this v =
     (if length (attrValues (h ! this)) \<noteq> 0
         \<or> length (pseudoClassValues (h ! this)) \<noteq> 0
         \<or> hasPseudoElement (h ! this)
      then (Inl OutOfOrder, h)
      else (Inr this, h[this := (h ! this)\<lparr>classValues := classValues (h ! this) @ [v]\<rparr>]))"

definition Selector_attr :: "heap \<Rightarrow> ref \<Rightarrow> string \<Rightarrow> ref outcome" where
  "Selector_attr h this v =
     (if length (pseudoClassValues (h ! this)) \<noteq> 0 \<or> hasPseudoElement (h ! this)
      then (Inl OutOfOrder, h)
      else (Inr this, h[this := (h ! this)\<lparr>attrValues := attrValues (h ! this) @ [v]\<rparr>]))"

definition Selector_pseudoClass :: "heap \<Rightarrow> ref \<Rightarrow> string \<Rightarrow> ref outcome" where
  "Selector_pseudoClass h this v =
     (if hasPseudoElement (h ! this) then (Inl OutOfOrder, h)
      else (Inr this,
            h[this := (h ! this)\<lparr>pseudoClassValues := pseudoClassValues (h ! this) @ [v]\<rparr>]))"

definition Selector_pseudoElement :: "heap \<Rightarrow> ref \<Rightarrow> string \<Rightarrow> ref outcome" where
  "Selector_pseudoElement h this v =
     (if hasPseudoElement (h ! this) then (Inl DuplicateSelectorPart, h)
      else (Inr this,
            h[this := (h ! this)\<lparr>pseudoElementValue := v, hasPseudoElement := True\<rparr>]))"

definition Selector_combine :: "heap \<Rightarrow> ref \<Rightarrow> ref \<Rightarrow> string \<Rightarrow> ref \<Rightarrow> ref outcome" where
  "Selector_combine h this selector1 c selector2 =
     (Inr this, h[this := (h ! this)\<lparr>selectors := [selector1, selector2], combinator := c\<rparr>])"

text \<open>
  \<open>stringify\<close> calls itself on the two stored selectors, and a selector can be made to
  store itself (\<open>s.combine(s, c, s)\<close>), so the recursion need not end: the result
  \<open>None\<close> stands for a call that returns no string (JavaScript gives up with a
  RangeError when the stack is exhausted; a stored array with a single
  entry, which no method creates, would end in a TypeError). Like the other methods
  it is given the heap and returns the heap it leaves: the template literal evaluates
  \<open>this.selectors[0].stringify()\<close>, then \<open>this.combinator\<close>, then
  \<open>this.selectors[1].stringify()\<close>.
\<close>

partial_function (option) Selector_stringify :: "heap \<Rightarrow> ref \<Rightarrow> (string \<times> heap) option" where
  "Selector_stringify h this =
     (if length (selectors (h ! this)) \<noteq> 0 then
        do {
          (l, h1) \<leftarrow> Selector_stringify h (selectors (h ! this) ! 0);
          if 1 < length (selectors (h1 ! this)) then
            do {
              (r, h2) \<leftarrow> Selector_stringify h1 (selectors (h1 ! this) ! 1);
              Some (l @ '' '' @ combinator (h1 ! this) @ '' '' @ r, h2)
            }
          else None
        }
      else
        (let selectorString = '''';
             selectorString =
               (if elementValue (h ! this) \<noteq> '''' then selectorString @ elementValue (h ! this)
                else selectorString);
             selectorString =
               (if idValue (h ! this) \<noteq> '''' then selectorString @ ''#'' @ idValue (h ! this)
                else selectorString);
             selectorString =
               (if length (classValues (h ! this)) \<noteq> 0
                then selectorString @ concat (map (\<lambda>c. ''.'' @ c) (classValues (h ! this)))
                else selectorString);
             selectorString =
               (if length (attrValues (h ! this)) \<noteq> 0
                then selectorString @ concat (map (\<lambda>a. ''['' @ a @ '']'') (attrValues (h ! this)))
                else selectorString);
             selectorString =
               (if length (pseudoClassValues (h ! this)) \<noteq> 0
                then selectorString @ concat (map (\<lambda>p. '':'' @ p) (pseudoClassValues (h ! this)))
                else selectorString);
             selectorString =
               (if pseudoElementValue (h ! this) \<noteq> ''''
                then selectorString @ ''::'' @ pseudoElementValue (h ! this)
                else selectorString)
         in Some (selectorString, h)))"

declare Selector_stringify.simps [code]

subsection \<open>The facade cssSelectorBuilder\<close>

definition cssSelectorBuilder_element :: "heap \<Rightarrow> string \<Rightarrow> ref outcome" where
  "cssSelectorBuilder_element h v = (let (selector, h1) = new_Selector h in Selector_element h1 selector v)"

definition cssSelectorBuilder_id :: "heap \<Rightarrow> string \<Rightarrow> ref outcome" where
  "cssSelectorBuilder_id h v = (let (selector, h1) = new_Selector h in Selector_id h1 selector v)"

definition cssSelectorBuilder_class :: "heap \<Rightarrow> string \<Rightarrow> ref outcome" where
  "cssSelectorBuilder_class h v = (let (selector, h1) = new_Selector h in Selector_class h1 selector v)"

definition cssSelectorBuilder_attr :: "heap \<Rightarrow> string \<Rightarrow> ref outcome" where
  "cssSelectorBuilder_attr h v = (let (selector, h1) = new_Selector h in Selector_attr h1 selector v)"

definition cssSelectorBuilder_pseudoClass :: "heap \<Rightarrow> string \<Rightarrow> ref outcome" where
  "cssSelectorBuilder_pseudoClass h v =
     (let (selector, h1) = new_Selector h in Selector_pseudoClass h1 selector v)"

definition cssSelectorBuilder_pseudoElement :: "heap \<Rightarrow> string \<Rightarrow> ref outcome" where
  "cssSelectorBuilder_pseudoElement h v =
     (let (selector, h1) = new_Selector h in Selector_pseudoElement h1 selector v)"

definition cssSelectorBuilder_combine :: "heap \<Rightarrow> ref \<Rightarrow> string \<Rightarrow> ref \<Rightarrow> ref outcome" where
  "cssSelectorBuilder_combine h selector1 c selector2 =
     (let (selector, h1) = new_Selector h in Selector_combine h1 selector selector1 c selector2)"

subsection \<open>Calls on a node\<close>

text \<open>
  The seven methods of a \<open>Selector\<close> as data, so that a sequence of calls on one node
  can be spoken of: the six part operations, and \<open>combine\<close>.
\<close>

datatype call =
  Element string | Id string | Class string | Attr string | PseudoClass string
  | PseudoElement string | Combine ref string ref

fun invoke :: "heap \<Rightarrow> ref \<Rightarrow> call \<Rightarrow> ref outcome" where
  "invoke h this (Element v) = Selector_element h this v"
| "invoke h this (Id v) = Selector_id h this v"
| "invoke h this (Class v) = Selector_class h this v"
| "invoke h this (Attr v) = Selector_attr h this v"
| "invoke h this (PseudoClass v) = Selector_pseudoClass h this v"
| "invoke h this (PseudoElement v) = Selector_pseudoElement h this v"
| "invoke h this (Combine selector1 c selector2) = Selector_combine h this selector1 c selector2"

fun is_part :: "call \<Rightarrow> bool" where
  "is_part (Combine selector1 c selector2) = False"
| "is_part m = True"

text \<open>The same call through the facade: on a node that the call allocates.\<close>

fun cssSelectorBuilder :: "heap \<Rightarrow> call \<Rightarrow> ref outcome" where
  "cssSelectorBuilder h (Element v) = cssSelectorBuilder_element h v"
| "cssSelectorBuilder h (Id v) = cssSelectorBuilder_id h v"
| "cssSelectorBuilder h (Class v) = cssSelectorBuilder_class h v"
| "cssSelectorBuilder h (Attr v) = cssSelectorBuilder_attr h v"
| "cssSelectorBuilder h (PseudoClass v) = cssSelectorBuilder_pseudoClass h v"
| "cssSelectorBuilder h (PseudoElement v) = cssSelectorBuilder_pseudoElement h v"
| "cssSelectorBuilder h (Combine selector1 c selector2) =
     cssSelectorBuilder_combine h selector1 c selector2"

text \<open>
  A chain \<open>node.m1(..).m2(..)...\<close>: each method is called on what the one before
  returned, and the first throw ends the chain.
\<close>

fun chain :: "heap \<Rightarrow> ref \<Rightarrow> call list \<Rightarrow> ref outcome" where
  "chain h this [] = (Inr this, h)"
| "chain h this (m # ms) =
     (case invoke h this m of
        (Inl e, h1) \<Rightarrow> (Inl e, h1)
      | (Inr node, h1) \<Rightarrow> chain h1 node ms)"

text \<open>
  A chain that starts at the facade, \<open>cssSelectorBuilder.m1(..).m2(..)...\<close>; with
  no call at all it is \<open>new Selector()\<close>.
\<close>

fun build :: "heap \<Rightarrow> call list \<Rightarrow> ref outcome" where
  "build h [] = (let (selector, h1) = new_Selector h in (Inr selector, h1))"
| "build h (m # ms) =
     (case cssSelectorBuilder h m of
        (Inl e, h1) \<Rightarrow> (Inl e, h1)
      | (Inr node, h1) \<Rightarrow> chain h1 node ms)"

text \<open>
  Calls on nodes of the heap whose errors the caller catches and ignores: each call is
  made on the heap that the one before left, whether it threw or not.
\<close>

fun attempts :: "heap \<Rightarrow> (ref \<times> call) list \<Rightarrow> heap" where
  "attempts h [] = h"
| "attempts h ((node, m) # calls) = attempts (snd (invoke h node m)) calls"

text \<open>What a call to \<open>stringify\<close> returns, when it returns.\<close>

definition rendered :: "heap \<Rightarrow> ref \<Rightarrow> string option" where
  "rendered h this = map_option fst (Selector_stringify h this)"

subsection \<open>Heaps\<close>

text \<open>
  The references that a node stores are references to allocated objects, as every
  JavaScript reference is.
\<close>

definition heap_ok :: "heap \<Rightarrow> bool" where
  "heap_ok h = (\<forall>s \<in> set h. \<forall>child \<in> set (selectors s). child < length h)"

text \<open>
  A heap in which every node that stores selectors stores two, both allocated before
  it. This is what a program gets that calls \<open>combine\<close> through the facade only: the new
  node wraps two nodes that exist already.
\<close>

definition children_older :: "heap \<Rightarrow> bool" where
  "children_older h =
     (\<forall>node < length h.
        (length (selectors (h ! node)) = 0 \<or> length (selectors (h ! node)) = 2)
        \<and> (\<forall>child \<in> set (selectors (h ! node)). child < node))"

text \<open>
  Two heaps that differ at most in the part fields of one node: every other node is
  the same, and that node stores the same selectors and the same combinator.
\<close>

definition same_but_parts :: "ref \<Rightarrow> heap \<Rightarrow> heap \<Rightarrow> bool" where
  "same_but_parts this h g =
     (length g = length h
      \<and> (\<forall>node < length h. node \<noteq> this \<longrightarrow> g ! node = h ! node)
      \<and> selectors (g ! this) = selectors (h ! this)
      \<and> combinator (g ! this) = combinator (h ! this))"

subsection \<open>Categories and the rendering rule\<close>

text \<open>
  The six categories in their order (\<open>combine\<close> is no part and comes after them), the
  categories that may be supplied once only, and the argument of a call.
\<close>

fun category :: "call \<Rightarrow> nat" where
  "category (Element v) = 0"
| "category (Id v) = 1"
| "category (Class v) = 2"
| "category (Attr v) = 3"
| "category (PseudoClass v) = 4"
| "category (PseudoElement v) = 5"
| "category (Combine selector1 c selector2) = 6"

fun single_use :: "call \<Rightarrow> bool" where
  "single_use (Element v) = True"
| "single_use (Id v) = True"
| "single_use (PseudoElement v) = True"
| "single_use m = False"

fun arg :: "call \<Rightarrow> string" where
  "arg (Element v) = v"
| "arg (Id v) = v"
| "arg (Class v) = v"
| "arg (Attr v) = v"
| "arg (PseudoClass v) = v"
| "arg (PseudoElement v) = v"
| "arg (Combine selector1 c selector2) = c"

definition in_category :: "nat \<Rightarrow> call list \<Rightarrow> call list" where
  "in_category k ms = filter (\<lambda>m. category m = k) ms"

definition supplied :: "call list \<Rightarrow> nat \<Rightarrow> bool" where
  "supplied ms k = (\<exists>m \<in> set ms. category m = k)"

definition later_supplied :: "call list \<Rightarrow> call \<Rightarrow> bool" where
  "later_supplied ms m = (\<exists>m' \<in> set ms. category m < category m')"

text \<open>
  The rendering rule in the words of the specification: the parts by category in the
  fixed order, inside a category in the order of the calls, each part as its value
  behind its mark.
\<close>

fun spec_part :: "call \<Rightarrow> string" where
  "spec_part (Element v) = v"
| "spec_part (Id v) = ''#'' @ v"
| "spec_part (Class v) = ''.'' @ v"
| "spec_part (Attr v) = ''['' @ v @ '']''"
| "spec_part (PseudoClass v) = '':'' @ v"
| "spec_part (PseudoElement v) = ''::'' @ v"
| "spec_part (Combine selector1 c selector2) = ''''"

definition spec_stringify :: "call list \<Rightarrow> string" where
  "spec_stringify ms =
     concat (map spec_part
       (in_category 0 ms @ in_category 1 ms @ in_category 2 ms
        @ in_category 3 ms @ in_category 4 ms @ in_category 5 ms))"

text \<open>
  The same rule with the one difference that the code makes: an id or a pseudo-element
  whose value is the empty string is left out together with its mark.
\<close>

fun shown_part :: "call \<Rightarrow> string" where
  "shown_part (Id v) = (if v = '''' then '''' else ''#'' @ v)"
| "shown_part (PseudoElement v) = (if v = '''' then '''' else ''::'' @ v)"
| "shown_part m = spec_part m"

definition shown_stringify :: "call list \<Rightarrow> string" where
  "shown_stringify ms =
     concat (map shown_part
       (in_category 0 ms @ in_category 1 ms @ in_category 2 ms
        @ in_category 3 ms @ in_category 4 ms @ in_category 5 ms))"

text \<open>The object that a chain of part operations leaves, read off the calls.\<close>

definition node_of :: "call list \<Rightarrow> Selector" where
  "node_of ms =
     \<lparr>elementValue = concat (map arg (in_category 0 ms)),
      idValue = concat (map arg (in_category 1 ms)),
      classValues = map arg (in_category 2 ms),
      attrValues = map arg (in_category 3 ms),
      pseudoClassValues = map arg (in_category 4 ms),
      pseudoElementValue = concat (map arg (in_category 5 ms)),
      combinator = '''', selectors = [],
      elementCount = 0, idCount = 0, pseudoElementCount = 0,
      hasElement = supplied ms 0, hasId = supplied ms 1, hasPseudoElement = supplied ms 5\<rparr>"

text \<open>
  The string that \<open>stringify\<close> builds from the part fields of a node that stores
  no selectors, written as one concatenation.
\<close>

definition parts_string :: "Selector \<Rightarrow> string" where
  "parts_string s =
     elementValue s
     @ (if idValue s \<noteq> '''' then ''#'' @ idValue s else '''')
     @ concat (map (\<lambda>c. ''.'' @ c) (classValues s))
     @ concat (map (\<lambda>a. ''['' @ a @ '']'') (attrValues s))
     @ concat (map (\<lambda>p. '':'' @ p) (pseudoClassValues s))
     @ (if pseudoElementValue s \<noteq> '''' then ''::'' @ pseudoElementValue s else '''')"

subsection \<open>The example of the documentation\<close>

text \<open>
  The nodes of the third example in the source's doc comment, before the outermost
  \<open>combine\<close>: four simple nodes and the two inner combinations.
\<close>

definition example_heap :: heap where
  "example_heap =
     [node_of [Element ''div'', Id ''main'', Class ''container'', Class ''draggable''],
      node_of [Element ''table'', Id ''data''],
      node_of [Element ''tr'', PseudoClass ''nth-of-type(even)''],
      node_of [Element ''td'', PseudoClass ''nth-of-type(even)''],
      Selector_constructor\<lparr>selectors := [2, 3], combinator := '' ''\<rparr>,
      Selector_constructor\<lparr>selectors := [1, 4], combinator := ''~''\<rparr>]"

section \<open>Properties\<close>

subsection \<open>Calls, chains and the facade\<close>

lemmas method_defs =
  Selector_element_def Selector_id_def Selector_class_def Selector_attr_def
  Selector_pseudoClass_def Selector_pseudoElement_def Selector_combine_def

lemmas facade_defs =
  cssSelectorBuilder_element_def cssSelectorBuilder_id_def cssSelectorBuilder_class_def
  cssSelectorBuilder_attr_def cssSelectorBuilder_pseudoClass_def
  cssSelectorBuilder_pseudoElement_def cssSelectorBuilder_combine_def

lemma invoke_error_heap: "invoke h this m = (Inl e, h') \<Longrightarrow> h' = h"
  by (cases m) (auto simp: method_defs split: if_splits)

lemma invoke_returns_this: "invoke h this m = (Inr node, h') \<Longrightarrow> node = this"
  by (cases m) (auto simp: method_defs split: if_splits)

lemma invoke_length: "length (snd (invoke h this m)) = length h"
  by (cases m) (auto simp: method_defs)

lemma invoke_other: "node \<noteq> this \<Longrightarrow> snd (invoke h this m) ! node = h ! node"
  by (cases m) (auto simp: method_defs)

lemma nth_update_this:
  "h[this := s] ! node = (if node = this \<and> this < length h then s else h ! node)"
  by (cases "this < length h") (auto simp: nth_list_update list_update_beyond)

lemma facade_invoke:
  "cssSelectorBuilder h m = invoke (h @ [Selector_constructor]) (length h) m"
  by (cases m) (simp_all add: facade_defs new_Selector_def)

lemma facade_part:
  assumes "is_part m"
  shows "\<exists>s. cssSelectorBuilder h m = (Inr (length h), h @ [s])"
  using assms
  by (cases m) (simp_all add: facade_defs new_Selector_def method_defs Selector_constructor_def)

lemma build_chain: "build h ms = chain (h @ [Selector_constructor]) (length h) ms"
  by (cases ms) (simp_all add: facade_invoke new_Selector_def)

lemma chain_append:
  "chain h this (ms @ ms') =
     (case chain h this ms of
        (Inl e, h1) \<Rightarrow> (Inl e, h1)
      | (Inr node, h1) \<Rightarrow> chain h1 node ms')"
  by (induction ms arbitrary: h this) (auto split: prod.splits sum.splits)

lemma build_append:
  "build h ms = (Inr node, h') \<Longrightarrow> build h (ms @ ms') = chain h' node ms'"
  by (simp add: build_chain chain_append)

lemma build_prefix:
  assumes "fst (build h (ms @ ms')) = Inr node"
  shows "\<exists>h'. build h ms = (Inr (length h), h')"
proof (cases "build h ms")
  case (Pair outcome h')
  show ?thesis
  proof (cases outcome)
    case (Inl e)
    with Pair assms show ?thesis by (simp add: build_chain chain_append)
  next
    case (Inr node')
    with Pair have "build h ms = (Inr node', h')" by simp
    moreover have "node' = length h"
    proof -
      have "\<And>ms h this node h'. chain h this ms = (Inr node, h') \<Longrightarrow> node = this"
      proof -
        fix ms :: "call list" and h this node h'
        show "chain h this ms = (Inr node, h') \<Longrightarrow> node = this"
          by (induction ms arbitrary: h this)
             (auto split: prod.splits sum.splits dest: invoke_returns_this)
      qed
      from this[of "h @ [Selector_constructor]" "length h" ms node' h'] Pair Inr
      show ?thesis by (simp add: build_chain)
    qed
    ultimately show ?thesis by blast
  qed
qed

subsection \<open>Flags of the parts that are set once\<close>

lemma invoke_keeps_hasElement:
  "hasElement (h ! node) \<Longrightarrow> hasElement (snd (invoke h this m) ! node)"
  by (cases m) (auto simp: method_defs nth_update_this)

lemma invoke_keeps_hasId:
  "hasId (h ! node) \<Longrightarrow> hasId (snd (invoke h this m) ! node)"
  by (cases m) (auto simp: method_defs nth_update_this)

lemma invoke_keeps_hasPseudoElement:
  "hasPseudoElement (h ! node) \<Longrightarrow> hasPseudoElement (snd (invoke h this m) ! node)"
  by (cases m) (auto simp: method_defs nth_update_this)

lemma attempts_keeps_hasElement:
  "hasElement (h ! node) \<Longrightarrow> hasElement (attempts h calls ! node)"
  by (induction h calls rule: attempts.induct) (simp_all add: invoke_keeps_hasElement)

lemma attempts_keeps_hasId:
  "hasId (h ! node) \<Longrightarrow> hasId (attempts h calls ! node)"
  by (induction h calls rule: attempts.induct) (simp_all add: invoke_keeps_hasId)

lemma attempts_keeps_hasPseudoElement:
  "hasPseudoElement (h ! node) \<Longrightarrow> hasPseudoElement (attempts h calls ! node)"
  by (induction h calls rule: attempts.induct) (simp_all add: invoke_keeps_hasPseudoElement)

lemma invoke_sets_flag:
  assumes "this < length h" and "invoke h this m = (Inr node, h')"
  shows "(category m = 0 \<longrightarrow> hasElement (h' ! this))
         \<and> (category m = 1 \<longrightarrow> hasId (h' ! this))
         \<and> (category m = 5 \<longrightarrow> hasPseudoElement (h' ! this))"
  using assms by (cases m) (auto simp: method_defs split: if_splits)

lemma invoke_flagged:
  assumes "single_use m"
    and "(category m = 0 \<longrightarrow> hasElement (h ! this))
         \<and> (category m = 1 \<longrightarrow> hasId (h ! this))
         \<and> (category m = 5 \<longrightarrow> hasPseudoElement (h ! this))"
  shows "invoke h this m = (Inl DuplicateSelectorPart, h)"
  using assms by (cases m) (simp_all add: method_defs)

subsection \<open>Categories\<close>

lemma in_category_append:
  "in_category k (ms @ [m]) = in_category k ms @ (if category m = k then [m] else [])"
  by (simp add: in_category_def)

lemma in_category_member: "m \<in> set (in_category k ms) \<Longrightarrow> category m = k"
  by (simp add: in_category_def)

lemma supplied_in_category: "supplied ms k \<longleftrightarrow> in_category k ms \<noteq> []"
  by (auto simp: supplied_def in_category_def filter_empty_conv)

lemma part_category: "is_part m \<Longrightarrow> category m \<le> 5"
  by (cases m) simp_all

lemma is_part_category: "is_part m \<longleftrightarrow> category m \<noteq> 6"
  by (cases m) simp_all

lemma single_use_category: "single_use m \<longleftrightarrow> category m = 0 \<or> category m = 1 \<or> category m = 5"
  by (cases m) simp_all

lemma later_supplied_cases:
  assumes "\<forall>m' \<in> set ms. is_part m'"
  shows "later_supplied ms m \<longleftrightarrow>
           (category m < 1 \<and> supplied ms 1) \<or> (category m < 2 \<and> supplied ms 2)
           \<or> (category m < 3 \<and> supplied ms 3) \<or> (category m < 4 \<and> supplied ms 4)
           \<or> (category m < 5 \<and> supplied ms 5)"
proof
  assume "later_supplied ms m"
  then obtain m' where m': "m' \<in> set ms" "category m < category m'"
    by (auto simp: later_supplied_def)
  with assms have "category m' \<le> 5" by (simp add: part_category)
  with m'(2) have "category m' = 1 \<or> category m' = 2 \<or> category m' = 3 \<or> category m' = 4
      \<or> category m' = 5"
    by arith
  with m' show "(category m < 1 \<and> supplied ms 1) \<or> (category m < 2 \<and> supplied ms 2)
           \<or> (category m < 3 \<and> supplied ms 3) \<or> (category m < 4 \<and> supplied ms 4)
           \<or> (category m < 5 \<and> supplied ms 5)"
    unfolding supplied_def by metis
next
  assume "(category m < 1 \<and> supplied ms 1) \<or> (category m < 2 \<and> supplied ms 2)
           \<or> (category m < 3 \<and> supplied ms 3) \<or> (category m < 4 \<and> supplied ms 4)
           \<or> (category m < 5 \<and> supplied ms 5)"
  moreover have "\<And>k. supplied ms k \<Longrightarrow> category m < k \<Longrightarrow> later_supplied ms m"
    unfolding later_supplied_def supplied_def by blast
  ultimately show "later_supplied ms m" by blast
qed

subsection \<open>The node that a chain builds\<close>

lemma built_state:
  "(\<forall>m \<in> set ms. is_part m) \<Longrightarrow> chain (h @ [Selector_constructor]) (length h) ms = (Inr node, h')
   \<Longrightarrow> node = length h \<and> h' = h @ [node_of ms]
       \<and> length (in_category 0 ms) \<le> 1 \<and> length (in_category 1 ms) \<le> 1 \<and> length (in_category 5 ms) \<le> 1"
proof (induction ms arbitrary: node h' rule: rev_induct)
  case Nil
  then show ?case
    by (simp add: node_of_def Selector_constructor_def in_category_def supplied_def)
next
  case (snoc m ms)
  from snoc.prems(2) obtain node1 h1 where
    before: "chain (h @ [Selector_constructor]) (length h) ms = (Inr node1, h1)" and
    last: "invoke h1 node1 m = (Inr node, h')"
    by (auto simp: chain_append split: prod.splits sum.splits)
  from snoc.IH[OF _ before] snoc.prems(1) have
    ih: "node1 = length h" "h1 = h @ [node_of ms]"
      "length (in_category 0 ms) \<le> 1" "length (in_category 1 ms) \<le> 1" "length (in_category 5 ms) \<le> 1"
    by auto
  from snoc.prems(1) have part: "is_part m" by simp
  show ?case
    using last part ih
    by (cases m) (auto simp: method_defs node_of_def in_category_append supplied_in_category split: if_splits)
qed

lemma invoke_node_of:
  assumes "\<forall>m' \<in> set ms. is_part m'" and "is_part m"
  shows "fst (invoke (h @ [node_of ms]) (length h) m) =
           (if single_use m \<and> supplied ms (category m) then Inl DuplicateSelectorPart
            else if later_supplied ms m then Inl OutOfOrder
            else Inr (length h))"
  using assms(2)
  by (cases m)
     (simp_all add: later_supplied_cases[OF assms(1)] method_defs node_of_def supplied_in_category)

lemma fst_build_snoc:
  assumes "\<forall>m' \<in> set ms. is_part m'" and "is_part m" and "build h ms = (Inr node, h')"
  shows "fst (build h (ms @ [m])) =
           (if single_use m \<and> supplied ms (category m) then Inl DuplicateSelectorPart
            else if later_supplied ms m then Inl OutOfOrder
            else Inr (length h))"
proof -
  from built_state[OF assms(1) assms(3)[unfolded build_chain]] have
    st: "node = length h" "h' = h @ [node_of ms]" by simp_all
  have "fst (build h (ms @ [m])) = fst (invoke h' node m)"
    by (simp add: build_append[OF assms(3)] split: prod.splits sum.splits)
  with st invoke_node_of[OF assms(1,2), of h] show ?thesis by simp
qed

lemma repeat_ok:
  assumes parts: "\<forall>m' \<in> set ms. is_part m'" and part: "is_part m" and rep: "\<not> single_use m"
    and same: "\<forall>m' \<in> set ms'. category m' = category m"
    and first: "fst (build h (ms @ [m])) = Inr node"
  shows "fst (build h (ms @ m # ms')) = Inr node"
  using same
proof (induction ms' rule: rev_induct)
  case Nil
  from first show ?case by simp
next
  case (snoc x xs)
  let ?L = "ms @ m # xs"
  from snoc have ih: "fst (build h ?L) = Inr node" and x: "category x = category m"
    and xs: "\<forall>m' \<in> set xs. category m' = category m" by simp_all
  from ih obtain hL where built: "build h ?L = (Inr node, hL)"
    by (cases "build h ?L") simp
  from build_prefix[of h ms "[m]" node] first obtain h0 where
    built0: "build h ms = (Inr (length h), h0)" by blast
  from fst_build_snoc[OF parts part built0] first rep have
    node: "node = length h" and not_later: "\<not> later_supplied ms m"
    by (simp_all split: if_splits)
  have partsL: "\<forall>m' \<in> set ?L. is_part m'"
    using parts part xs by (auto simp: is_part_category)
  have partx: "is_part x" using part x by (simp add: is_part_category)
  have repx: "\<not> single_use x" using rep x by (simp add: single_use_category)
  have "\<not> later_supplied ?L x"
    using not_later x xs by (auto simp: later_supplied_def)
  with fst_build_snoc[OF partsL partx built] repx node
  show ?case by simp
qed

subsection \<open>Rendering\<close>

lemmas stringify_induct =
  Selector_stringify.raw_induct [rotated 1, consumes 1, case_names step]

lemma stringify_pure:
  assumes "Selector_stringify h this = Some y"
  shows "snd y = h"
  using assms
proof (induct rule: stringify_induct)
  case (step stringify h this y)
  show ?case
  proof (cases "selectors (h ! this) = []")
    case True
    with step(2) show ?thesis by (auto simp: Let_def)
  next
    case False
    with step(2) obtain l h1 r h2 where
      first: "stringify h (selectors (h ! this) ! 0) = Some (l, h1)" and
      second: "stringify h1 (selectors (h1 ! this) ! 1) = Some (r, h2)" and
      result: "snd y = h2"
      by (auto simp: bind_eq_Some_conv split: if_splits)
    from step(1)[OF first] step(1)[OF second] result show ?thesis by simp
  qed
qed

lemma append_single: "(@) [c] = (#) c"
  by (rule ext) simp

lemma stringify_simple:
  "selectors (h ! this) = [] \<Longrightarrow> Selector_stringify h this = Some (parts_string (h ! this), h)"
  by (subst Selector_stringify.simps) (simp add: Let_def parts_string_def append_single)

lemma stringify_combined:
  assumes "selectors (h ! this) = [a, b]"
    and "Selector_stringify h a = Some (l, h)" and "Selector_stringify h b = Some (r, h)"
  shows "Selector_stringify h this = Some (l @ '' '' @ combinator (h ! this) @ '' '' @ r, h)"
  by (subst Selector_stringify.simps) (simp add: assms)

lemma rendered_combined:
  assumes "selectors (h ! this) = [a, b]"
  shows "rendered h this =
           do { l \<leftarrow> rendered h a; r \<leftarrow> rendered h b;
                Some (l @ '' '' @ combinator (h ! this) @ '' '' @ r) }"
proof (cases "Selector_stringify h a")
  case None
  then show ?thesis
    by (subst rendered_def, subst Selector_stringify.simps) (simp add: assms rendered_def)
next
  case (Some y)
  with stringify_pure[OF Some] have first: "Selector_stringify h a = Some (fst y, h)"
    by (cases y) simp
  show ?thesis
  proof (cases "Selector_stringify h b")
    case None
    with first show ?thesis
      by (subst rendered_def, subst Selector_stringify.simps) (simp add: assms rendered_def)
  next
    case (Some z)
    with stringify_pure[OF Some] have second: "Selector_stringify h b = Some (fst z, h)"
      by (cases z) simp
    from stringify_combined[OF assms first second] first second show ?thesis
      by (simp add: rendered_def)
  qed
qed

lemma shown_element: "concat (map shown_part (in_category 0 ms)) = concat (map arg (in_category 0 ms))"
proof (induction ms)
  case (Cons m ms) then show ?case by (cases m) (simp_all add: in_category_def)
qed (simp add: in_category_def)

lemma shown_class:
  "concat (map shown_part (in_category 2 ms)) = concat (map (\<lambda>c. ''.'' @ c) (map arg (in_category 2 ms)))"
proof (induction ms)
  case (Cons m ms) then show ?case by (cases m) (simp_all add: in_category_def)
qed (simp add: in_category_def)

lemma shown_attr:
  "concat (map shown_part (in_category 3 ms)) = concat (map (\<lambda>a. ''['' @ a @ '']'') (map arg (in_category 3 ms)))"
proof (induction ms)
  case (Cons m ms) then show ?case by (cases m) (simp_all add: in_category_def)
qed (simp add: in_category_def)

lemma shown_pseudoClass:
  "concat (map shown_part (in_category 4 ms)) = concat (map (\<lambda>p. '':'' @ p) (map arg (in_category 4 ms)))"
proof (induction ms)
  case (Cons m ms) then show ?case by (cases m) (simp_all add: in_category_def)
qed (simp add: in_category_def)

lemma shown_id:
  assumes "length (in_category 1 ms) \<le> 1"
  shows "concat (map shown_part (in_category 1 ms)) =
         (if concat (map arg (in_category 1 ms)) \<noteq> '''' then ''#'' @ concat (map arg (in_category 1 ms)) else '''')"
proof (cases "in_category 1 ms")
  case Nil then show ?thesis by simp
next
  case (Cons m rest)
  with assms have rest: "rest = []" by simp
  from Cons have "category m = 1" using in_category_member[of m 1 ms] by simp
  then obtain v where "m = Id v" by (cases m) simp_all
  with Cons rest show ?thesis by simp
qed

lemma shown_pseudoElement:
  assumes "length (in_category 5 ms) \<le> 1"
  shows "concat (map shown_part (in_category 5 ms)) =
         (if concat (map arg (in_category 5 ms)) \<noteq> '''' then ''::'' @ concat (map arg (in_category 5 ms)) else '''')"
proof (cases "in_category 5 ms")
  case Nil then show ?thesis by simp
next
  case (Cons m rest)
  with assms have rest: "rest = []" by simp
  from Cons have "category m = 5" using in_category_member[of m 5 ms] by simp
  then obtain v where "m = PseudoElement v" by (cases m) simp_all
  with Cons rest show ?thesis by simp
qed

lemma parts_string_node_of:
  assumes "length (in_category 1 ms) \<le> 1" and "length (in_category 5 ms) \<le> 1"
  shows "parts_string (node_of ms) = shown_stringify ms"
  unfolding parts_string_def shown_stringify_def node_of_def
  by (simp only: Selector.simps map_append concat_append shown_element shown_class shown_attr
        shown_pseudoClass shown_id[OF assms(1)] shown_pseudoElement[OF assms(2)])

lemma stringify_total:
  assumes "children_older h" and "this < length h"
  shows "\<exists>s. Selector_stringify h this = Some (s, h)"
  using assms(2)
proof (induction this rule: less_induct)
  case (less this)
  show ?case
  proof (cases "selectors (h ! this) = []")
    case True
    from stringify_simple[OF True] show ?thesis by blast
  next
    case False
    with assms(1) less.prems have two: "length (selectors (h ! this)) = 2"
      and older: "\<forall>child \<in> set (selectors (h ! this)). child < this"
      by (auto simp: children_older_def)
    from two obtain a b where ab: "selectors (h ! this) = [a, b]"
      by (cases "selectors (h ! this)"; cases "tl (selectors (h ! this))") auto
    with older have "a < this" "b < this" by simp_all
    with less.IH[of a] less.IH[of b] less.prems obtain l r where
      "Selector_stringify h a = Some (l, h)" "Selector_stringify h b = Some (r, h)"
      by auto
    from stringify_combined[OF ab this] show ?thesis by blast
  qed
qed

subsection \<open>Heaps that render alike\<close>

lemma stringify_sim:
  assumes "Selector_stringify h this = Some y"
    and "this \<in> D"
    and "\<forall>x \<in> D. selectors (g ! x) = selectors (h ! x) \<and> combinator (g ! x) = combinator (h ! x)
           \<and> set (selectors (h ! x)) \<subseteq> D
           \<and> (selectors (h ! x) = [] \<longrightarrow> parts_string (g ! x) = parts_string (h ! x))"
  shows "Selector_stringify g this = Some (fst y, g)"
proof -
  let ?rel = "\<lambda>h. \<forall>x \<in> D. selectors (g ! x) = selectors (h ! x) \<and> combinator (g ! x) = combinator (h ! x)
           \<and> set (selectors (h ! x)) \<subseteq> D
           \<and> (selectors (h ! x) = [] \<longrightarrow> parts_string (g ! x) = parts_string (h ! x))"
  from assms(1) have
    "snd y = h \<and> (this \<in> D \<longrightarrow> ?rel h \<longrightarrow> Selector_stringify g this = Some (fst y, g))"
  proof (induct rule: stringify_induct)
    case (step stringify h this y)
    show ?case
    proof (cases "selectors (h ! this) = []")
      case True
      with step(2) have "Selector_stringify h this = Some y"
        by (subst Selector_stringify.simps) (simp add: Let_def)
      with stringify_simple[OF True] have y: "y = (parts_string (h ! this), h)"
        by simp
      show ?thesis
      proof (intro conjI impI)
        show "snd y = h" using y by simp
        assume "this \<in> D" and "?rel h"
        with True have "selectors (g ! this) = []" "parts_string (g ! this) = parts_string (h ! this)"
          by auto
        with stringify_simple[of g this] y show "Selector_stringify g this = Some (fst y, g)"
          by simp
      qed
    next
      case False
      with step(2) obtain l h1 r h2 where
        first: "stringify h (selectors (h ! this) ! 0) = Some (l, h1)" and
        two: "1 < length (selectors (h1 ! this))" and
        second: "stringify h1 (selectors (h1 ! this) ! 1) = Some (r, h2)" and
        y: "y = (l @ '' '' @ combinator (h1 ! this) @ '' '' @ r, h2)"
        by (auto simp: bind_eq_Some_conv split: if_splits)
      from step(1)[OF first] have h1: "h1 = h" by simp
      from step(1)[OF second] h1 have h2: "h2 = h" by simp
      show ?thesis
      proof (intro conjI impI)
        show "snd y = h" using y h2 by simp
        assume D: "this \<in> D" and rel: "?rel h"
        from rel D have same: "selectors (g ! this) = selectors (h ! this)"
          "combinator (g ! this) = combinator (h ! this)" "set (selectors (h ! this)) \<subseteq> D"
          by auto
        from two h1 False have len: "0 < length (selectors (h ! this))" "1 < length (selectors (h ! this))"
          by simp_all
        from nth_mem[OF len(1)] nth_mem[OF len(2)] same(3) have
          kids: "selectors (h ! this) ! 0 \<in> D" "selectors (h ! this) ! 1 \<in> D"
          by blast+
        from step(1)[OF first] h1 kids(1) rel have
          l: "Selector_stringify g (selectors (h ! this) ! 0) = Some (l, g)" by simp
        from step(1)[OF second] h1 kids(2) rel have
          r: "Selector_stringify g (selectors (h ! this) ! 1) = Some (r, g)" by simp
        show "Selector_stringify g this = Some (fst y, g)"
          using False same two h1 l r y
          by (subst Selector_stringify.simps) simp
      qed
    qed
  qed
  with assms(2,3) show ?thesis by simp
qed

lemma rendered_alike:
  assumes "this \<in> D"
    and "\<forall>x \<in> D. selectors (g ! x) = selectors (h ! x) \<and> combinator (g ! x) = combinator (h ! x)
           \<and> set (selectors (h ! x)) \<subseteq> D
           \<and> (selectors (h ! x) = [] \<longrightarrow> parts_string (g ! x) = parts_string (h ! x))"
  shows "rendered g this = rendered h this"
proof -
  from assms(2) have flipped:
    "\<forall>x \<in> D. selectors (h ! x) = selectors (g ! x) \<and> combinator (h ! x) = combinator (g ! x)
           \<and> set (selectors (g ! x)) \<subseteq> D
           \<and> (selectors (g ! x) = [] \<longrightarrow> parts_string (h ! x) = parts_string (g ! x))"
    by simp
  show ?thesis
  proof (cases "Selector_stringify h this")
    case (Some y)
    from stringify_sim[OF Some assms] Some show ?thesis by (simp add: rendered_def)
  next
    case None
    note h_none = None
    show ?thesis
    proof (cases "Selector_stringify g this")
      case (Some z)
      from stringify_sim[OF Some assms(1) flipped] h_none show ?thesis by simp
    next
      case None
      with h_none show ?thesis by (simp add: rendered_def)
    qed
  qed
qed

lemma rendered_new:
  assumes "heap_ok h" and "this < length h"
  shows "rendered (h @ [s]) this = rendered h this"
proof (rule rendered_alike[where D = "{..<length h}"])
  show "this \<in> {..<length h}" using assms(2) by simp
  show "\<forall>x \<in> {..<length h}.
          selectors ((h @ [s]) ! x) = selectors (h ! x) \<and> combinator ((h @ [s]) ! x) = combinator (h ! x)
          \<and> set (selectors (h ! x)) \<subseteq> {..<length h}
          \<and> (selectors (h ! x) = [] \<longrightarrow> parts_string ((h @ [s]) ! x) = parts_string (h ! x))"
    using assms(1) by (auto simp: heap_ok_def nth_append)
qed

lemma rendered_same_but_parts:
  assumes "heap_ok h" and "this < length h" and "selectors (h ! this) \<noteq> []"
    and "same_but_parts this h g" and "node < length h"
  shows "rendered g node = rendered h node"
proof (rule rendered_alike[where D = "{..<length h}"])
  show "node \<in> {..<length h}" using assms(5) by simp
  show "\<forall>x \<in> {..<length h}.
          selectors (g ! x) = selectors (h ! x) \<and> combinator (g ! x) = combinator (h ! x)
          \<and> set (selectors (h ! x)) \<subseteq> {..<length h}
          \<and> (selectors (h ! x) = [] \<longrightarrow> parts_string (g ! x) = parts_string (h ! x))"
  proof
    fix x assume "x \<in> {..<length h}"
    then have x: "x < length h" by simp
    then have "h ! x \<in> set h" by (rule nth_mem)
    with assms(1) have kids: "set (selectors (h ! x)) \<subseteq> {..<length h}"
      by (auto simp: heap_ok_def)
    show "selectors (g ! x) = selectors (h ! x) \<and> combinator (g ! x) = combinator (h ! x)
          \<and> set (selectors (h ! x)) \<subseteq> {..<length h}
          \<and> (selectors (h ! x) = [] \<longrightarrow> parts_string (g ! x) = parts_string (h ! x))"
    proof (cases "x = this")
      case True
      with assms(3,4) kids show ?thesis by (simp add: same_but_parts_def)
    next
      case False
      with assms(4) x have "g ! x = h ! x" by (simp add: same_but_parts_def)
      with kids show ?thesis by simp
    qed
  qed
qed

lemma invoke_same_but_parts:
  "is_part m \<Longrightarrow> same_but_parts this h (snd (invoke h this m))"
  by (cases m) (auto simp: method_defs same_but_parts_def nth_update_this)

lemma same_but_parts_trans:
  "same_but_parts this h g \<Longrightarrow> same_but_parts this g k \<Longrightarrow> same_but_parts this h k"
  by (simp add: same_but_parts_def)

lemma attempts_same_but_parts:
  "\<forall>m \<in> set ms. is_part m \<Longrightarrow> same_but_parts this h (attempts h (map (Pair this) ms))"
proof (induction ms arbitrary: h)
  case Nil
  show ?case by (simp add: same_but_parts_def)
next
  case (Cons m ms)
  from Cons.prems have "is_part m" "\<forall>m \<in> set ms. is_part m" by simp_all
  from invoke_same_but_parts[OF this(1), of this h] Cons.IH[OF this(2), of "snd (invoke h this m)"]
  show ?case by (simp add: same_but_parts_trans)
qed

lemma combine_heap_ok:
  assumes "heap_ok h" and "a < length h" and "b < length h"
  shows "heap_ok (snd (Selector_combine h this a c b))"
proof -
  have "set (h[this := (h ! this)\<lparr>selectors := [a, b], combinator := c\<rparr>])
          \<subseteq> insert ((h ! this)\<lparr>selectors := [a, b], combinator := c\<rparr>) (set h)"
    by (rule set_update_subset_insert)
  with assms show ?thesis
    by (auto simp: heap_ok_def Selector_combine_def)
qed

subsection \<open>The heaps that programs build\<close>

text \<open>
  Both conditions on heaps hold of the empty heap and are kept by every call whose
  arguments are allocated nodes: \<open>heap_ok\<close> by every method and every facade function,
  \<open>children_older\<close> by the part operations and by every facade function.
\<close>

lemma heap_ok_update:
  assumes "heap_ok h" and "\<forall>child \<in> set (selectors s). child < length h"
  shows "heap_ok (h[this := s])"
proof -
  have "set (h[this := s]) \<subseteq> insert s (set h)" by (rule set_update_subset_insert)
  with assms show ?thesis by (auto simp: heap_ok_def)
qed

lemma invoke_heap_ok:
  assumes "heap_ok h" and "this < length h"
    and "\<forall>selector1 c selector2. m = Combine selector1 c selector2 \<longrightarrow>
           selector1 < length h \<and> selector2 < length h"
  shows "heap_ok (snd (invoke h this m))"
proof -
  from assms(1,2) have kids: "\<forall>child \<in> set (selectors (h ! this)). child < length h"
    by (auto simp: heap_ok_def)
  with assms show ?thesis
    by (cases m) (auto simp: method_defs intro!: heap_ok_update)
qed

lemma new_heap_ok: "heap_ok h \<Longrightarrow> heap_ok (snd (new_Selector h))"
  by (auto simp: heap_ok_def new_Selector_def Selector_constructor_def less_Suc_eq)

lemma facade_heap_ok:
  assumes "heap_ok h"
    and "\<forall>selector1 c selector2. m = Combine selector1 c selector2 \<longrightarrow>
           selector1 < length h \<and> selector2 < length h"
  shows "heap_ok (snd (cssSelectorBuilder h m))"
proof -
  have "heap_ok (h @ [Selector_constructor])"
    using new_heap_ok[OF assms(1)] by (simp add: new_Selector_def)
  from invoke_heap_ok[OF this, of "length h" m] assms(2) show ?thesis
    by (auto simp: facade_invoke less_Suc_eq)
qed

lemma part_children_older:
  assumes "children_older h" and "is_part m"
  shows "children_older (snd (invoke h this m))"
  using assms
  by (cases m) (auto simp: method_defs children_older_def nth_update_this)

lemma facade_children_older:
  assumes "children_older h"
    and "\<forall>selector1 c selector2. m = Combine selector1 c selector2 \<longrightarrow>
           selector1 < length h \<and> selector2 < length h"
  shows "children_older (snd (cssSelectorBuilder h m))"
  using assms
  by (cases m)
     (auto simp: facade_defs new_Selector_def method_defs children_older_def nth_append
        Selector_constructor_def less_Suc_eq)

lemma empty_heap: "heap_ok []" "children_older []"
  by (simp_all add: heap_ok_def children_older_def)

subsection \<open>The example of the documentation\<close>

text \<open>
  The calls of the example in the order in which JavaScript evaluates them: the
  arguments of a \<open>combine\<close> from left to right, and then the \<open>combine\<close> itself.
\<close>

lemma example_heap_built:
  "snd (cssSelectorBuilder_combine
     (snd (cssSelectorBuilder_combine
        (snd (build
           (snd (build
              (snd (build
                 (snd (build []
                    [Element ''div'', Id ''main'', Class ''container'', Class ''draggable'']))
                 [Element ''table'', Id ''data'']))
              [Element ''tr'', PseudoClass ''nth-of-type(even)'']))
           [Element ''td'', PseudoClass ''nth-of-type(even)'']))
        2 '' '' 3))
     1 ''~'' 4) = example_heap"
  by (simp add: facade_defs new_Selector_def method_defs Selector_constructor_def node_of_def
        in_category_def supplied_def example_heap_def)

lemma example_heap_ok: "heap_ok example_heap"
  by (simp add: heap_ok_def example_heap_def node_of_def Selector_constructor_def)

lemma example_children_older: "children_older example_heap"
  by (simp add: children_older_def example_heap_def node_of_def Selector_constructor_def
        less_Suc_eq numeral_eq_Suc)

lemma example_rendered:
  "rendered example_heap 0 = Some ''div#main.container.draggable''"
  "rendered example_heap 5 = Some ''table#data ~ tr:nth-of-type(even)   td:nth-of-type(even)''"
  by code_simp+

section \<open>The claims\<close>

subsection \<open>C1\<close>

text \<open>
  Claim C1, as amended. A node built by a chain of part operations that all succeed,
  with any string arguments, renders as the parts by category in the fixed order:
  the element, \<open>#\<close> and the id, \<open>.\<close> and each class, each attribute in brackets,
  \<open>:\<close> and each pseudo-class, \<open>::\<close> and the pseudo-element. The call returns, and
  leaves the heap as it was. The amendment: \<open>stringify\<close> tests the stored value and
  not the flag, so an id or a pseudo-element that was set to the empty string is
  left out together with its mark.
\<close>

theorem stringify_built_node:
  assumes "\<forall>m \<in> set ms. is_part m" and "build h ms = (Inr node, h')"
  shows "Selector_stringify h' node = Some (shown_stringify ms, h')"
proof -
  from built_state[OF assms(1) assms(2)[unfolded build_chain]] have
    st: "node = length h" "h' = h @ [node_of ms]"
    and once: "length (in_category 1 ms) \<le> 1" "length (in_category 5 ms) \<le> 1"
    by simp_all
  have "selectors (h' ! node) = []" using st by (simp add: node_of_def)
  from stringify_simple[OF this] parts_string_node_of[OF once] st show ?thesis by simp
qed

text \<open>
  Claim C1 as stated fails at \<open>id('')\<close>: the call succeeds and the node renders as
  the empty string, where the rule of the specification gives \<open>#\<close>.
\<close>

theorem stringify_empty_id_counterexample:
  "fst (build [] [Id '''']) = Inr 0
   \<and> rendered (snd (build [] [Id ''''])) 0 = Some ''''
   \<and> spec_stringify [Id ''''] = ''#''
   \<and> rendered (snd (build [] [Id ''''])) 0 \<noteq> Some (spec_stringify [Id ''''])"
  by (simp add: rendered_def facade_defs new_Selector_def method_defs Selector_constructor_def
       Selector_stringify.simps spec_stringify_def in_category_def)

text \<open>The second example of the source's doc comment.\<close>

theorem stringify_built_node_witness:
  "is_part (Element ''a'') \<and> is_part (Attr ''href$=\".png\"'') \<and> is_part (PseudoClass ''focus'')
   \<and> build [] [Element ''a'', Attr ''href$=\".png\"'', PseudoClass ''focus''] =
        (Inr 0, [node_of [Element ''a'', Attr ''href$=\".png\"'', PseudoClass ''focus'']])
   \<and> Selector_stringify [node_of [Element ''a'', Attr ''href$=\".png\"'', PseudoClass ''focus'']] 0 =
        Some (''a[href$=\".png\"]:focus'', [node_of [Element ''a'', Attr ''href$=\".png\"'', PseudoClass ''focus'']])"
proof -
  have parts: "\<forall>m \<in> set [Element ''a'', Attr ''href$=\".png\"'', PseudoClass ''focus'']. is_part m"
    by simp
  have built: "build [] [Element ''a'', Attr ''href$=\".png\"'', PseudoClass ''focus''] =
        (Inr 0, [node_of [Element ''a'', Attr ''href$=\".png\"'', PseudoClass ''focus'']])"
    by (simp add: facade_defs new_Selector_def method_defs Selector_constructor_def node_of_def
          in_category_def supplied_def)
  from stringify_built_node[OF parts built] parts built show ?thesis
    by (simp add: shown_stringify_def in_category_def)
qed

subsection \<open>C2\<close>

text \<open>
  Claim C2. For two nodes of a well-formed heap and any combinator string,
  \<open>cssSelectorBuilder.combine\<close> returns a node whose rendering is the rendering of the
  first node, a space, the combinator, a space, and the rendering of the second;
  it returns no string exactly when one of the two does not. The two nodes render
  after the call as they did before it.
\<close>

theorem stringify_of_combine:
  assumes "heap_ok h" and "selector1 < length h" and "selector2 < length h"
    and "cssSelectorBuilder_combine h selector1 c selector2 = (Inr node, h')"
  shows "rendered h' node =
           do { l \<leftarrow> rendered h' selector1; r \<leftarrow> rendered h' selector2;
                Some (l @ '' '' @ c @ '' '' @ r) }
         \<and> rendered h' selector1 = rendered h selector1
         \<and> rendered h' selector2 = rendered h selector2"
proof -
  let ?s = "Selector_constructor\<lparr>selectors := [selector1, selector2], combinator := c\<rparr>"
  from assms(4) have node: "node = length h" and h': "h' = h @ [?s]"
    by (simp_all add: cssSelectorBuilder_combine_def new_Selector_def Selector_combine_def)
  have "selectors (h' ! node) = [selector1, selector2]" "combinator (h' ! node) = c"
    using node h' by simp_all
  with rendered_combined[of h' node selector1 selector2]
  have "rendered h' node =
           do { l \<leftarrow> rendered h' selector1; r \<leftarrow> rendered h' selector2;
                Some (l @ '' '' @ c @ '' '' @ r) }"
    by simp
  with rendered_new[OF assms(1,2), of ?s] rendered_new[OF assms(1,3), of ?s] h'
  show ?thesis by simp
qed

text \<open>
  The third example of the source's doc comment, nested three levels deep; the
  innermost combinator is a single space, which gives three spaces in a row.
\<close>

theorem stringify_of_combine_witness:
  "heap_ok example_heap \<and> 0 < length example_heap \<and> 5 < length example_heap
   \<and> cssSelectorBuilder_combine example_heap 0 ''+'' 5 =
        (Inr 6, example_heap @ [Selector_constructor\<lparr>selectors := [0, 5], combinator := ''+''\<rparr>])
   \<and> rendered (example_heap @ [Selector_constructor\<lparr>selectors := [0, 5], combinator := ''+''\<rparr>]) 6 =
        Some ''div#main.container.draggable + table#data ~ tr:nth-of-type(even)   td:nth-of-type(even)''"
proof -
  have len: "0 < length example_heap" "5 < length example_heap"
    by (simp_all add: example_heap_def)
  have comb: "cssSelectorBuilder_combine example_heap 0 ''+'' 5 =
        (Inr 6, example_heap @ [Selector_constructor\<lparr>selectors := [0, 5], combinator := ''+''\<rparr>])"
    by (simp add: cssSelectorBuilder_combine_def new_Selector_def Selector_combine_def example_heap_def)
  from stringify_of_combine[OF example_heap_ok len comb] example_rendered
    example_heap_ok len comb
  show ?thesis by simp
qed

subsection \<open>C3\<close>

text \<open>
  Claim C3, as amended. On a node built by a chain of part operations, a further part
  operation throws \<open>OutOfOrder\<close> exactly when a call of a strictly later category
  is among those made, unless the operation is a second \<open>element\<close>, \<open>id\<close> or
  \<open>pseudoElement\<close>, whose own flag is tested first. Once a call of a repeatable
  category has succeeded, any number of further calls of that category in a row
  succeed.
\<close>

theorem out_of_order_iff:
  assumes "\<forall>m' \<in> set ms. is_part m'" and "build h ms = (Inr node, h')" and "is_part m"
  shows "(fst (invoke h' node m) = Inl OutOfOrder
            \<longleftrightarrow> later_supplied ms m \<and> \<not> (single_use m \<and> supplied ms (category m)))
         \<and> (\<not> single_use m \<longrightarrow> fst (invoke h' node m) = Inr node
              \<longrightarrow> (\<forall>m' \<in> set ms'. category m' = category m)
              \<longrightarrow> fst (chain h' node (m # ms')) = Inr node)"
proof -
  have snoc: "fst (build h (ms @ [m])) = fst (invoke h' node m)"
    by (simp add: build_append[OF assms(2)] split: prod.splits sum.splits)
  from built_state[OF assms(1) assms(2)[unfolded build_chain]] have
    node: "node = length h" by simp
  from fst_build_snoc[OF assms(1,3,2)] snoc node have
    "fst (invoke h' node m) = Inl OutOfOrder
       \<longleftrightarrow> later_supplied ms m \<and> \<not> (single_use m \<and> supplied ms (category m))"
    by simp
  moreover have "fst (chain h' node (m # ms')) = Inr node"
    if "\<not> single_use m" and "fst (invoke h' node m) = Inr node"
      and "\<forall>m' \<in> set ms'. category m' = category m"
    using repeat_ok[OF assms(1,3) that(1,3), of h node] that(2) snoc
      build_append[OF assms(2), of "m # ms'"] by simp
  ultimately show ?thesis by blast
qed

text \<open>
  Claim C3 as stated fails for \<open>element\<close> after \<open>element\<close> and \<open>id\<close>: a later
  category has been supplied, and the error is \<open>DuplicateSelectorPart\<close>.
\<close>

theorem duplicate_before_order_counterexample:
  "fst (build [] [Element ''a'', Id ''b'']) = Inr 0
   \<and> later_supplied [Element ''a'', Id ''b''] (Element ''c'')
   \<and> fst (invoke (snd (build [] [Element ''a'', Id ''b''])) 0 (Element ''c'')) = Inl DuplicateSelectorPart
   \<and> fst (invoke (snd (build [] [Element ''a'', Id ''b''])) 0 (Element ''c'')) \<noteq> Inl OutOfOrder"
  by (simp add: facade_defs new_Selector_def method_defs Selector_constructor_def later_supplied_def)

text \<open>\<open>element\<close> after \<open>id\<close> and \<open>class\<close> is out of order; three more classes are not.\<close>

theorem out_of_order_iff_witness:
  "is_part (Id ''main'') \<and> is_part (Class ''container'')
   \<and> build [] [Id ''main'', Class ''container''] = (Inr 0, [node_of [Id ''main'', Class ''container'']])
   \<and> is_part (Element ''div'') \<and> is_part (Class ''editable'')
   \<and> later_supplied [Id ''main'', Class ''container''] (Element ''div'')
   \<and> fst (invoke [node_of [Id ''main'', Class ''container'']] 0 (Element ''div'')) = Inl OutOfOrder
   \<and> \<not> single_use (Class ''editable'')
   \<and> fst (invoke [node_of [Id ''main'', Class ''container'']] 0 (Class ''editable'')) = Inr 0
   \<and> category (Class ''x'') = category (Class ''editable'')
   \<and> category (Class ''y'') = category (Class ''editable'')
   \<and> fst (chain [node_of [Id ''main'', Class ''container'']] 0
            [Class ''editable'', Class ''x'', Class ''y'']) = Inr 0"
proof -
  let ?ms = "[Id ''main'', Class ''container'']"
  have parts: "\<forall>m' \<in> set ?ms. is_part m'" by simp
  have built: "build [] ?ms = (Inr 0, [node_of ?ms])"
    by (auto simp: facade_defs new_Selector_def method_defs Selector_constructor_def node_of_def
          in_category_def supplied_def)
  have later: "later_supplied ?ms (Element ''div'')" by (simp add: later_supplied_def)
  have fresh: "\<not> supplied ?ms (category (Element ''div''))" by (simp add: supplied_def)
  have ok: "fst (invoke [node_of ?ms] 0 (Class ''editable'')) = Inr 0"
    by (simp add: method_defs node_of_def in_category_def supplied_def)
  have same: "\<forall>m' \<in> set [Class ''x'', Class ''y'']. category m' = category (Class ''editable'')"
    by simp
  from out_of_order_iff[OF parts built, of "Element ''div''" "[]"] later fresh
  have "fst (invoke [node_of ?ms] 0 (Element ''div'')) = Inl OutOfOrder" by simp
  moreover from out_of_order_iff[OF parts built, of "Class ''editable''" "[Class ''x'', Class ''y'']"] ok same
  have "fst (chain [node_of ?ms] 0 [Class ''editable'', Class ''x'', Class ''y'']) = Inr 0"
    by simp
  ultimately show ?thesis using parts built later ok same by simp
qed

subsection \<open>C4\<close>

text \<open>
  Claim C4. Once \<open>element\<close>, \<open>id\<close> or \<open>pseudoElement\<close> has succeeded on a node, the
  same operation on that node throws \<open>DuplicateSelectorPart\<close> and changes nothing,
  whatever its argument and whatever calls, on this node or on others, thrown or
  not, were made in between.
\<close>

theorem second_call_throws:
  assumes "this < length h" and "single_use m" and "invoke h this m = (Inr node, h1)"
    and "category m' = category m"
  shows "invoke (attempts h1 calls) this m' = (Inl DuplicateSelectorPart, attempts h1 calls)"
proof -
  from assms(2,4) have su: "single_use m'" by (simp add: single_use_category)
  from invoke_sets_flag[OF assms(1,3)] assms(4) have
    "(category m' = 0 \<longrightarrow> hasElement (attempts h1 calls ! this))
     \<and> (category m' = 1 \<longrightarrow> hasId (attempts h1 calls ! this))
     \<and> (category m' = 5 \<longrightarrow> hasPseudoElement (attempts h1 calls ! this))"
    by (simp add: attempts_keeps_hasElement attempts_keeps_hasId attempts_keeps_hasPseudoElement)
  from invoke_flagged[OF su this] show ?thesis .
qed

text \<open>An instance.\<close>

theorem second_call_throws_witness:
  "0 < length [Selector_constructor] \<and> single_use (Element ''a'')
   \<and> invoke [Selector_constructor] 0 (Element ''a'') =
        (Inr 0, [Selector_constructor\<lparr>elementValue := ''a'', hasElement := True\<rparr>])
   \<and> category (Element ''b'') = category (Element ''a'')
   \<and> invoke (attempts [Selector_constructor\<lparr>elementValue := ''a'', hasElement := True\<rparr>]
                [(0, Class ''c''), (0, Combine 0 ''>'' 0)]) 0 (Element ''b'') =
        (Inl DuplicateSelectorPart,
         attempts [Selector_constructor\<lparr>elementValue := ''a'', hasElement := True\<rparr>]
           [(0, Class ''c''), (0, Combine 0 ''>'' 0)])"
proof -
  have len: "0 < length [Selector_constructor]" by simp
  have su: "single_use (Element ''a'')" by simp
  have first: "invoke [Selector_constructor] 0 (Element ''a'') =
        (Inr 0, [Selector_constructor\<lparr>elementValue := ''a'', hasElement := True\<rparr>])"
    by (simp add: Selector_element_def Selector_constructor_def)
  have cat: "category (Element ''b'') = category (Element ''a'')" by simp
  note again = second_call_throws[OF len su first cat, where calls = "[(0, Class ''c''), (0, Combine 0 ''>'' 0)]"]
  from len su first cat again show ?thesis by (intro conjI)
qed

subsection \<open>C5\<close>

text \<open>
  Claim C5. A call that throws leaves the heap as it was: \<open>stringify\<close> and every
  later call behave as they would have without it, and a caller that ignores the
  error goes on as if the call had not been made.
\<close>

theorem thrown_call_keeps_heap:
  assumes "invoke h this m = (Inl e, h')"
  shows "h' = h
         \<and> Selector_stringify h' node = Selector_stringify h node
         \<and> invoke h' node m' = invoke h node m'
         \<and> attempts h ((this, m) # calls) = attempts h calls"
  using invoke_error_heap[OF assms] assms by simp

text \<open>An instance.\<close>

theorem thrown_call_keeps_heap_witness:
  "invoke [Selector_constructor\<lparr>elementValue := ''a'', hasElement := True\<rparr>] 0 (Element ''b'') =
     (Inl DuplicateSelectorPart, [Selector_constructor\<lparr>elementValue := ''a'', hasElement := True\<rparr>])
   \<and> attempts [Selector_constructor\<lparr>elementValue := ''a'', hasElement := True\<rparr>]
         [(0, Element ''b''), (0, Id ''x'')]
       = attempts [Selector_constructor\<lparr>elementValue := ''a'', hasElement := True\<rparr>] [(0, Id ''x'')]"
proof -
  have thrown: "invoke [Selector_constructor\<lparr>elementValue := ''a'', hasElement := True\<rparr>] 0 (Element ''b'') =
     (Inl DuplicateSelectorPart, [Selector_constructor\<lparr>elementValue := ''a'', hasElement := True\<rparr>])"
    by (simp add: Selector_element_def Selector_constructor_def)
  from thrown_call_keeps_heap[OF thrown, of 0 "Id ''x''" "[(0, Id ''x'')]"] thrown show ?thesis
    by simp
qed

subsection \<open>C6\<close>

text \<open>
  Claim C6. A call to \<open>stringify\<close> that returns leaves the heap as it was, so a second
  call returns the same string and every method behaves after it as before it. On a
  heap whose nodes store only nodes allocated before them, \<open>stringify\<close> returns on
  every node.
\<close>

theorem stringify_observes:
  "(Selector_stringify h this = Some (s, h') \<longrightarrow>
      h' = h \<and> Selector_stringify h' this = Some (s, h') \<and> invoke h' node m = invoke h node m)
   \<and> (children_older h \<longrightarrow> this < length h \<longrightarrow> (\<exists>s. Selector_stringify h this = Some (s, h)))"
proof (intro conjI impI)
  assume r: "Selector_stringify h this = Some (s, h')"
  from stringify_pure[OF r] have "h' = h" by simp
  with r show "h' = h" "Selector_stringify h' this = Some (s, h')"
    "invoke h' node m = invoke h node m" by simp_all
next
  assume "children_older h" "this < length h"
  then show "\<exists>s. Selector_stringify h this = Some (s, h)" by (rule stringify_total)
qed

text \<open>An instance.\<close>

theorem stringify_observes_witness:
  "Selector_stringify example_heap 5 =
     Some (''table#data ~ tr:nth-of-type(even)   td:nth-of-type(even)'', example_heap)
   \<and> children_older example_heap \<and> 5 < length example_heap
   \<and> (\<exists>s. Selector_stringify example_heap 5 = Some (s, example_heap))"
proof -
  have len: "5 < length example_heap" by (simp add: example_heap_def)
  from stringify_observes[of example_heap 5 _ _ 0 "Class ''x''"] example_children_older len
  have total: "\<exists>s. Selector_stringify example_heap 5 = Some (s, example_heap)" by blast
  then obtain s where s: "Selector_stringify example_heap 5 = Some (s, example_heap)" ..
  with example_rendered(2) have "s = ''table#data ~ tr:nth-of-type(even)   td:nth-of-type(even)''"
    by (simp add: rendered_def)
  with s total example_children_older len show ?thesis by simp
qed

subsection \<open>C7\<close>

text \<open>
  Claim C7. \<open>cssSelectorBuilder.combine\<close> throws for no two references and no
  combinator string: it returns a new node that stores the two references and the
  combinator, and leaves the nodes that existed as they were. The method \<open>combine\<close>
  of a node returns that node.
\<close>

theorem combine_never_throws:
  "cssSelectorBuilder_combine h selector1 c selector2 =
     (Inr (length h), h @ [Selector_constructor\<lparr>selectors := [selector1, selector2], combinator := c\<rparr>])
   \<and> fst (Selector_combine h this selector1 c selector2) = Inr this"
  by (simp add: cssSelectorBuilder_combine_def new_Selector_def Selector_combine_def)

text \<open>An instance.\<close>

theorem combine_never_throws_witness:
  "cssSelectorBuilder_combine [Selector_constructor] 0 ''%'' 0 =
     (Inr 1, [Selector_constructor, Selector_constructor\<lparr>selectors := [0, 0], combinator := ''%''\<rparr>])
   \<and> fst (Selector_combine [Selector_constructor] 0 0 ''%'' 0) = Inr 0"
  using combine_never_throws[of "[Selector_constructor]" 0 "''%''" 0 0] by simp

subsection \<open>C8\<close>

text \<open>
  Claim C8. A call through the facade is the method called on a newly allocated node.
  For each of the six part operations it succeeds and returns the new reference; the
  new node is the object of the constructor with the assignment of the operation made
  on it, and the nodes that existed stay as they were, so that a second call through
  the facade succeeds as well, on another node, and leaves the first node alone. A
  method called on an existing node, when it does not throw, returns that very node,
  makes its assignment on that node and changes no other.
\<close>

theorem facade_allocates:
  "cssSelectorBuilder h m = invoke (snd (new_Selector h)) (fst (new_Selector h)) m
   \<and> fst (new_Selector h) = length h \<and> snd (new_Selector h) = h @ [Selector_constructor]
   \<and> cssSelectorBuilder h (Element v) =
        (Inr (length h), h @ [Selector_constructor\<lparr>elementValue := v, hasElement := True\<rparr>])
   \<and> cssSelectorBuilder h (Id v) =
        (Inr (length h), h @ [Selector_constructor\<lparr>idValue := v, hasId := True\<rparr>])
   \<and> cssSelectorBuilder h (Class v) =
        (Inr (length h), h @ [Selector_constructor\<lparr>classValues := [v]\<rparr>])
   \<and> cssSelectorBuilder h (Attr v) =
        (Inr (length h), h @ [Selector_constructor\<lparr>attrValues := [v]\<rparr>])
   \<and> cssSelectorBuilder h (PseudoClass v) =
        (Inr (length h), h @ [Selector_constructor\<lparr>pseudoClassValues := [v]\<rparr>])
   \<and> cssSelectorBuilder h (PseudoElement v) =
        (Inr (length h),
         h @ [Selector_constructor\<lparr>pseudoElementValue := v, hasPseudoElement := True\<rparr>])
   \<and> (is_part m \<longrightarrow>
        fst (cssSelectorBuilder h m) = Inr (length h)
        \<and> length (snd (cssSelectorBuilder h m)) = Suc (length h)
        \<and> take (length h) (snd (cssSelectorBuilder h m)) = h)
   \<and> (is_part m \<longrightarrow> is_part m' \<longrightarrow>
        fst (cssSelectorBuilder (snd (cssSelectorBuilder h m)) m') = Inr (Suc (length h))
        \<and> snd (cssSelectorBuilder (snd (cssSelectorBuilder h m)) m') ! length h
            = snd (cssSelectorBuilder h m) ! length h)
   \<and> (invoke h this m = (Inr node, h') \<longrightarrow>
        node = this \<and> length h' = length h \<and> (\<forall>other. other \<noteq> this \<longrightarrow> h' ! other = h ! other))
   \<and> (this < length h \<longrightarrow> invoke h this m = (Inr node, h') \<longrightarrow>
        h' ! this =
          (case m of
             Element w \<Rightarrow> (h ! this)\<lparr>elementValue := w, hasElement := True\<rparr>
           | Id w \<Rightarrow> (h ! this)\<lparr>idValue := w, hasId := True\<rparr>
           | Class w \<Rightarrow> (h ! this)\<lparr>classValues := classValues (h ! this) @ [w]\<rparr>
           | Attr w \<Rightarrow> (h ! this)\<lparr>attrValues := attrValues (h ! this) @ [w]\<rparr>
           | PseudoClass w \<Rightarrow>
               (h ! this)\<lparr>pseudoClassValues := pseudoClassValues (h ! this) @ [w]\<rparr>
           | PseudoElement w \<Rightarrow>
               (h ! this)\<lparr>pseudoElementValue := w, hasPseudoElement := True\<rparr>
           | Combine selector1 c selector2 \<Rightarrow>
               (h ! this)\<lparr>selectors := [selector1, selector2], combinator := c\<rparr>))"
proof -
  have a: "cssSelectorBuilder h m = invoke (snd (new_Selector h)) (fst (new_Selector h)) m"
    by (simp add: facade_invoke new_Selector_def)
  have new: "cssSelectorBuilder h (Element v) =
        (Inr (length h), h @ [Selector_constructor\<lparr>elementValue := v, hasElement := True\<rparr>])"
    "cssSelectorBuilder h (Id v) =
        (Inr (length h), h @ [Selector_constructor\<lparr>idValue := v, hasId := True\<rparr>])"
    "cssSelectorBuilder h (Class v) =
        (Inr (length h), h @ [Selector_constructor\<lparr>classValues := [v]\<rparr>])"
    "cssSelectorBuilder h (Attr v) =
        (Inr (length h), h @ [Selector_constructor\<lparr>attrValues := [v]\<rparr>])"
    "cssSelectorBuilder h (PseudoClass v) =
        (Inr (length h), h @ [Selector_constructor\<lparr>pseudoClassValues := [v]\<rparr>])"
    "cssSelectorBuilder h (PseudoElement v) =
        (Inr (length h),
         h @ [Selector_constructor\<lparr>pseudoElementValue := v, hasPseudoElement := True\<rparr>])"
    by (simp_all add: facade_defs new_Selector_def method_defs Selector_constructor_def)
  have b: "fst (cssSelectorBuilder h m) = Inr (length h)
        \<and> length (snd (cssSelectorBuilder h m)) = Suc (length h)
        \<and> take (length h) (snd (cssSelectorBuilder h m)) = h" if "is_part m"
    using facade_part[OF that, of h] by auto
  have c: "fst (cssSelectorBuilder (snd (cssSelectorBuilder h m)) m') = Inr (Suc (length h))
        \<and> snd (cssSelectorBuilder (snd (cssSelectorBuilder h m)) m') ! length h
            = snd (cssSelectorBuilder h m) ! length h" if "is_part m" "is_part m'"
  proof -
    from facade_part[OF that(1), of h] obtain s where
      s: "cssSelectorBuilder h m = (Inr (length h), h @ [s])" by blast
    from facade_part[OF that(2), of "h @ [s]"] obtain s' where
      "cssSelectorBuilder (h @ [s]) m' = (Inr (Suc (length h)), h @ [s] @ [s'])" by auto
    with s show ?thesis by (simp add: nth_append)
  qed
  have d: "node = this \<and> length h' = length h \<and> (\<forall>other. other \<noteq> this \<longrightarrow> h' ! other = h ! other)"
    if "invoke h this m = (Inr node, h')"
    using invoke_returns_this[OF that] invoke_length[of h this m] invoke_other[of _ this h m] that
    by auto
  have e: "h' ! this =
          (case m of
             Element w \<Rightarrow> (h ! this)\<lparr>elementValue := w, hasElement := True\<rparr>
           | Id w \<Rightarrow> (h ! this)\<lparr>idValue := w, hasId := True\<rparr>
           | Class w \<Rightarrow> (h ! this)\<lparr>classValues := classValues (h ! this) @ [w]\<rparr>
           | Attr w \<Rightarrow> (h ! this)\<lparr>attrValues := attrValues (h ! this) @ [w]\<rparr>
           | PseudoClass w \<Rightarrow>
               (h ! this)\<lparr>pseudoClassValues := pseudoClassValues (h ! this) @ [w]\<rparr>
           | PseudoElement w \<Rightarrow>
               (h ! this)\<lparr>pseudoElementValue := w, hasPseudoElement := True\<rparr>
           | Combine selector1 c selector2 \<Rightarrow>
               (h ! this)\<lparr>selectors := [selector1, selector2], combinator := c\<rparr>)"
    if "this < length h" "invoke h this m = (Inr node, h')"
    using that by (cases m) (auto simp: method_defs split: if_splits)
  show ?thesis
    apply (intro conjI impI)
    using a new b c d e by (simp_all add: new_Selector_def)
qed

text \<open>
  An instance: each of the six operations through the facade, two chains started one
  after the other, and each of the six operations on an existing node.
\<close>

theorem facade_allocates_witness:
  "cssSelectorBuilder [Selector_constructor] (Attr ''x'') =
     (Inr 1, [Selector_constructor, Selector_constructor\<lparr>attrValues := [''x'']\<rparr>])
   \<and> cssSelectorBuilder [Selector_constructor] (PseudoClass ''x'') =
     (Inr 1, [Selector_constructor, Selector_constructor\<lparr>pseudoClassValues := [''x'']\<rparr>])
   \<and> is_part (Element ''a'') \<and> is_part (Element ''b'')
   \<and> cssSelectorBuilder [] (Element ''a'') =
     (Inr 0, [Selector_constructor\<lparr>elementValue := ''a'', hasElement := True\<rparr>])
   \<and> cssSelectorBuilder [Selector_constructor\<lparr>elementValue := ''a'', hasElement := True\<rparr>] (Element ''b'') =
     (Inr 1, [Selector_constructor\<lparr>elementValue := ''a'', hasElement := True\<rparr>,
              Selector_constructor\<lparr>elementValue := ''b'', hasElement := True\<rparr>])
   \<and> 0 < length [Selector_constructor\<lparr>classValues := [''c'']\<rparr>]
   \<and> fst (invoke [Selector_constructor\<lparr>classValues := [''c'']\<rparr>] 0 (Class ''d'')) = Inr 0
   \<and> snd (invoke [Selector_constructor\<lparr>classValues := [''c'']\<rparr>] 0 (Class ''d'')) ! 0 =
        Selector_constructor\<lparr>classValues := [''c'', ''d'']\<rparr>
   \<and> fst (invoke [Selector_constructor\<lparr>classValues := [''c'']\<rparr>] 0 (Attr ''e'')) = Inr 0
   \<and> snd (invoke [Selector_constructor\<lparr>classValues := [''c'']\<rparr>] 0 (Attr ''e'')) ! 0 =
        Selector_constructor\<lparr>classValues := [''c''], attrValues := [''e'']\<rparr>
   \<and> fst (invoke [Selector_constructor\<lparr>classValues := [''c'']\<rparr>] 0 (PseudoClass ''f'')) = Inr 0
   \<and> snd (invoke [Selector_constructor\<lparr>classValues := [''c'']\<rparr>] 0 (PseudoClass ''f'')) ! 0 =
        Selector_constructor\<lparr>classValues := [''c''], pseudoClassValues := [''f'']\<rparr>
   \<and> fst (invoke [Selector_constructor\<lparr>classValues := [''c'']\<rparr>] 0 (PseudoElement ''g'')) = Inr 0
   \<and> snd (invoke [Selector_constructor\<lparr>classValues := [''c'']\<rparr>] 0 (PseudoElement ''g'')) ! 0 =
        Selector_constructor\<lparr>classValues := [''c''], pseudoElementValue := ''g'',
          hasPseudoElement := True\<rparr>
   \<and> fst (invoke [Selector_constructor] 0 (Element ''a'')) = Inr 0
   \<and> snd (invoke [Selector_constructor] 0 (Element ''a'')) ! 0 =
        Selector_constructor\<lparr>elementValue := ''a'', hasElement := True\<rparr>
   \<and> fst (invoke [Selector_constructor] 0 (Id ''i'')) = Inr 0
   \<and> snd (invoke [Selector_constructor] 0 (Id ''i'')) ! 0 =
        Selector_constructor\<lparr>idValue := ''i'', hasId := True\<rparr>"
proof -
  let ?h = "[Selector_constructor\<lparr>classValues := [''c'']\<rparr>]"
  have len: "0 < length ?h" "0 < length [Selector_constructor]" by simp_all
  have via_facade:
    "cssSelectorBuilder g (Element w) =
       (Inr (length g), g @ [Selector_constructor\<lparr>elementValue := w, hasElement := True\<rparr>])"
    "cssSelectorBuilder g (Attr w) =
       (Inr (length g), g @ [Selector_constructor\<lparr>attrValues := [w]\<rparr>])"
    "cssSelectorBuilder g (PseudoClass w) =
       (Inr (length g), g @ [Selector_constructor\<lparr>pseudoClassValues := [w]\<rparr>])"
    for g w
    using facade_allocates[of g "Element w" w "Element w" 0 0 "[]"] by blast+
  have facade: "cssSelectorBuilder [Selector_constructor] (Attr ''x'') =
     (Inr 1, [Selector_constructor, Selector_constructor\<lparr>attrValues := [''x'']\<rparr>])"
    "cssSelectorBuilder [Selector_constructor] (PseudoClass ''x'') =
     (Inr 1, [Selector_constructor, Selector_constructor\<lparr>pseudoClassValues := [''x'']\<rparr>])"
    using via_facade(2,3)[of "[Selector_constructor]" "''x''"]
    by (simp_all del: cssSelectorBuilder.simps)
  have first: "cssSelectorBuilder [] (Element ''a'') =
     (Inr 0, [Selector_constructor\<lparr>elementValue := ''a'', hasElement := True\<rparr>])"
    using via_facade(1)[of "[]" "''a''"] by (simp del: cssSelectorBuilder.simps)
  have second: "cssSelectorBuilder [Selector_constructor\<lparr>elementValue := ''a'', hasElement := True\<rparr>]
       (Element ''b'') =
     (Inr 1, [Selector_constructor\<lparr>elementValue := ''a'', hasElement := True\<rparr>,
              Selector_constructor\<lparr>elementValue := ''b'', hasElement := True\<rparr>])"
    using via_facade(1)[of "[Selector_constructor\<lparr>elementValue := ''a'', hasElement := True\<rparr>]" "''b''"]
    by (simp del: cssSelectorBuilder.simps)
  have ok: "fst (invoke ?h 0 (Class ''d'')) = Inr 0" "fst (invoke ?h 0 (Attr ''e'')) = Inr 0"
    "fst (invoke ?h 0 (PseudoClass ''f'')) = Inr 0" "fst (invoke ?h 0 (PseudoElement ''g'')) = Inr 0"
    "fst (invoke [Selector_constructor] 0 (Element ''a'')) = Inr 0"
    "fst (invoke [Selector_constructor] 0 (Id ''i'')) = Inr 0"
    by (simp_all add: method_defs Selector_constructor_def)
  have on_node: "snd (invoke g 0 m) ! 0 =
          (case m of
             Element w \<Rightarrow> (g ! 0)\<lparr>elementValue := w, hasElement := True\<rparr>
           | Id w \<Rightarrow> (g ! 0)\<lparr>idValue := w, hasId := True\<rparr>
           | Class w \<Rightarrow> (g ! 0)\<lparr>classValues := classValues (g ! 0) @ [w]\<rparr>
           | Attr w \<Rightarrow> (g ! 0)\<lparr>attrValues := attrValues (g ! 0) @ [w]\<rparr>
           | PseudoClass w \<Rightarrow> (g ! 0)\<lparr>pseudoClassValues := pseudoClassValues (g ! 0) @ [w]\<rparr>
           | PseudoElement w \<Rightarrow> (g ! 0)\<lparr>pseudoElementValue := w, hasPseudoElement := True\<rparr>
           | Combine selector1 c selector2 \<Rightarrow>
               (g ! 0)\<lparr>selectors := [selector1, selector2], combinator := c\<rparr>)"
    if "0 < length g" "fst (invoke g 0 m) = Inr 0" for g m
  proof -
    from that(2) have "invoke g 0 m = (Inr 0, snd (invoke g 0 m))"
      by (cases "invoke g 0 m") simp
    with facade_allocates[of g m "''''" m 0 0 "snd (invoke g 0 m)"] that(1)
    show ?thesis by blast
  qed
  from on_node[OF len(1) ok(1)] on_node[OF len(1) ok(2)] on_node[OF len(1) ok(3)]
    on_node[OF len(1) ok(4)] on_node[OF len(2) ok(5)] on_node[OF len(2) ok(6)]
  have written:
    "snd (invoke ?h 0 (Class ''d'')) ! 0 = Selector_constructor\<lparr>classValues := [''c'', ''d'']\<rparr>"
    "snd (invoke ?h 0 (Attr ''e'')) ! 0 =
        Selector_constructor\<lparr>classValues := [''c''], attrValues := [''e'']\<rparr>"
    "snd (invoke ?h 0 (PseudoClass ''f'')) ! 0 =
        Selector_constructor\<lparr>classValues := [''c''], pseudoClassValues := [''f'']\<rparr>"
    "snd (invoke ?h 0 (PseudoElement ''g'')) ! 0 =
        Selector_constructor\<lparr>classValues := [''c''], pseudoElementValue := ''g'',
          hasPseudoElement := True\<rparr>"
    "snd (invoke [Selector_constructor] 0 (Element ''a'')) ! 0 =
        Selector_constructor\<lparr>elementValue := ''a'', hasElement := True\<rparr>"
    "snd (invoke [Selector_constructor] 0 (Id ''i'')) ! 0 =
        Selector_constructor\<lparr>idValue := ''i'', hasId := True\<rparr>"
    by (simp_all add: Selector_constructor_def del: invoke.simps)
  have p: "is_part (Element ''a'')" "is_part (Element ''b'')" by simp_all
  from facade p first second len(1) ok written show ?thesis
    by (intro conjI)
qed

subsection \<open>C9\<close>

text \<open>
  Claim C9. After \<open>element('')\<close>, \<open>id('')\<close> or \<open>pseudoElement('')\<close> through the facade
  the same operation throws \<open>DuplicateSelectorPart\<close>, although the node renders as
  the empty string.
\<close>

theorem duplicate_by_flag:
  "fst (build h [Element '''', Element w]) = Inl DuplicateSelectorPart
   \<and> fst (build h [Id '''', Id w]) = Inl DuplicateSelectorPart
   \<and> fst (build h [PseudoElement '''', PseudoElement w]) = Inl DuplicateSelectorPart
   \<and> fst (build h [Element '''']) = Inr (length h)
   \<and> fst (build h [Id '''']) = Inr (length h)
   \<and> fst (build h [PseudoElement '''']) = Inr (length h)
   \<and> rendered (snd (build h [Element ''''])) (length h) = Some ''''
   \<and> rendered (snd (build h [Id ''''])) (length h) = Some ''''
   \<and> rendered (snd (build h [PseudoElement ''''])) (length h) = Some ''''"
  by (simp add: facade_defs new_Selector_def method_defs Selector_constructor_def rendered_def
        stringify_simple parts_string_def)

text \<open>An instance.\<close>

theorem duplicate_by_flag_witness:
  "fst (build [] [Element '''', Element ''x'']) = Inl DuplicateSelectorPart
   \<and> fst (build [] [Id '''', Id ''x'']) = Inl DuplicateSelectorPart
   \<and> fst (build [] [PseudoElement '''', PseudoElement ''x'']) = Inl DuplicateSelectorPart
   \<and> rendered (snd (build [] [Id ''''])) 0 = Some ''''"
  using duplicate_by_flag[of "[]" "''x''"] by simp

subsection \<open>C10\<close>

text \<open>
  Claim C10. A node that stores selectors renders the same in any two heaps that
  differ only in its part fields. Part operations called on it after \<open>combine\<close>
  therefore do not change its rendering, and \<open>combine\<close> called after part
  operations gives the rendering that it gives without them.
\<close>

theorem combined_node_ignores_parts:
  assumes "heap_ok h" and "this < length h"
  shows "(selectors (h ! this) \<noteq> [] \<longrightarrow> same_but_parts this h g \<longrightarrow> rendered g this = rendered h this)
         \<and> (selectors (h ! this) \<noteq> [] \<longrightarrow> (\<forall>m \<in> set ms. is_part m) \<longrightarrow>
               rendered (attempts h (map (Pair this) ms)) this = rendered h this)
         \<and> (a < length h \<longrightarrow> b < length h \<longrightarrow> (\<forall>m \<in> set ms. is_part m) \<longrightarrow>
               rendered (snd (Selector_combine (attempts h (map (Pair this) ms)) this a c b)) this
                 = rendered (snd (Selector_combine h this a c b)) this)"
proof (intro conjI impI)
  assume "selectors (h ! this) \<noteq> []" and "same_but_parts this h g"
  from rendered_same_but_parts[OF assms this assms(2)]
  show "rendered g this = rendered h this" .
next
  assume stored: "selectors (h ! this) \<noteq> []" and parts: "\<forall>m \<in> set ms. is_part m"
  from rendered_same_but_parts[OF assms stored attempts_same_but_parts[OF parts] assms(2)]
  show "rendered (attempts h (map (Pair this) ms)) this = rendered h this" .
next
  assume a: "a < length h" and b: "b < length h" and parts: "\<forall>m \<in> set ms. is_part m"
  let ?g = "attempts h (map (Pair this) ms)"
  let ?hc = "snd (Selector_combine h this a c b)"
  let ?gc = "snd (Selector_combine ?g this a c b)"
  from attempts_same_but_parts[OF parts, of this h] assms(2)
  have same: "same_but_parts this ?hc ?gc"
    by (auto simp: same_but_parts_def Selector_combine_def nth_update_this)
  have len: "this < length ?hc" using assms(2) by (simp add: Selector_combine_def)
  have stored: "selectors (?hc ! this) \<noteq> []" using assms(2) by (simp add: Selector_combine_def)
  from rendered_same_but_parts[OF combine_heap_ok[OF assms(1) a b] len stored same len]
  show "rendered ?gc this = rendered ?hc this" .
qed

text \<open>An instance.\<close>

theorem combined_node_ignores_parts_witness:
  "heap_ok example_heap \<and> 4 < length example_heap \<and> selectors (example_heap ! 4) \<noteq> []
   \<and> is_part (Element ''p'') \<and> is_part (Class ''x'')
   \<and> attempts example_heap [(4, Element ''p''), (4, Class ''x'')] ! 4 =
        (example_heap ! 4)\<lparr>elementValue := ''p'', hasElement := True, classValues := [''x'']\<rparr>
   \<and> rendered (attempts example_heap [(4, Element ''p''), (4, Class ''x'')]) 4 =
        Some ''tr:nth-of-type(even)   td:nth-of-type(even)''
   \<and> rendered (snd (Selector_combine (attempts example_heap [(0, Class ''x'')]) 0 2 ''>'' 3)) 0 =
        Some ''tr:nth-of-type(even) > td:nth-of-type(even)''
   \<and> same_but_parts 4 example_heap (example_heap[4 := (example_heap ! 4)\<lparr>idValue := ''q''\<rparr>])
   \<and> rendered (example_heap[4 := (example_heap ! 4)\<lparr>idValue := ''q''\<rparr>]) 4 =
        Some ''tr:nth-of-type(even)   td:nth-of-type(even)''"
proof -
  have len: "4 < length example_heap" "0 < length example_heap" "2 < length example_heap"
    "3 < length example_heap"
    by (simp_all add: example_heap_def)
  have stored: "selectors (example_heap ! 4) \<noteq> []"
    by (simp add: example_heap_def Selector_constructor_def)
  have parts: "\<forall>m \<in> set [Element ''p'', Class ''x'']. is_part m" "\<forall>m \<in> set [Class ''x'']. is_part m"
    by simp_all
  have changed: "attempts example_heap [(4, Element ''p''), (4, Class ''x'')] ! 4 =
        (example_heap ! 4)\<lparr>elementValue := ''p'', hasElement := True, classValues := [''x'']\<rparr>"
    by (simp add: example_heap_def Selector_constructor_def Selector_element_def Selector_class_def)
  have r4: "rendered example_heap 4 = Some ''tr:nth-of-type(even)   td:nth-of-type(even)''"
    by code_simp
  have r0: "rendered (snd (Selector_combine example_heap 0 2 ''>'' 3)) 0 =
        Some ''tr:nth-of-type(even) > td:nth-of-type(even)''"
    by code_simp
  from combined_node_ignores_parts[OF example_heap_ok len(1),
      of _ "[Element ''p'', Class ''x'']" 0 0 "''''"] stored parts(1) r4
  have after: "rendered (attempts example_heap [(4, Element ''p''), (4, Class ''x'')]) 4 =
        Some ''tr:nth-of-type(even)   td:nth-of-type(even)''"
    by simp
  from combined_node_ignores_parts[OF example_heap_ok len(2), of _ "[Class ''x'']" 2 3 "''>''"]
    len parts(2) r0
  have before: "rendered (snd (Selector_combine (attempts example_heap [(0, Class ''x'')]) 0 2 ''>'' 3)) 0 =
        Some ''tr:nth-of-type(even) > td:nth-of-type(even)''"
    by simp
  have same: "same_but_parts 4 example_heap (example_heap[4 := (example_heap ! 4)\<lparr>idValue := ''q''\<rparr>])"
    using len(1) by (simp add: same_but_parts_def)
  from combined_node_ignores_parts[OF example_heap_ok len(1),
      of "example_heap[4 := (example_heap ! 4)\<lparr>idValue := ''q''\<rparr>]" "[]" 0 0 "''''"]
    stored same r4
  have other: "rendered (example_heap[4 := (example_heap ! 4)\<lparr>idValue := ''q''\<rparr>]) 4 =
        Some ''tr:nth-of-type(even)   td:nth-of-type(even)''"
    by simp
  from example_heap_ok len(1) stored changed after before same other show ?thesis by simp
qed

end
